theory Spec2Isabelle
  imports Main "HOL-Library.Word" "HOL-Library.Sublist"
begin

section \<open>Strings of the runtime\<close>

text \<open>
  A JavaScript string is a sequence of 16-bit code units; \<open>length\<close>, \<open>substring\<close>,
  \<open>split\<close> and \<open>trim\<close> all work on code units. \<open>ascii\<close> writes such a string from
  an ASCII literal.
\<close>

type_synonym code_unit = "16 word"
type_synonym jsstring = "code_unit list"

definition CU :: "char \<Rightarrow> code_unit" where
  "CU c = of_nat (of_char c)"

definition ascii :: "string \<Rightarrow> jsstring" where
  "ascii s = map CU s"

text \<open>
  \<open>String.prototype.trim\<close> removes the code points WhiteSpace and LineTerminator of
  ECMA-262 from both ends: TAB, LF, VT, FF, CR, SP, NBSP, U+1680, U+2000 to U+200A,
  U+2028, U+2029, U+202F, U+205F, U+3000 and U+FEFF.
\<close>

definition is_white_space :: "code_unit \<Rightarrow> bool" where
  "is_white_space c =
     ((0x09 \<le> c \<and> c \<le> 0x0D) \<or> c = 0x20 \<or> c = 0xA0 \<or> c = 0x1680
      \<or> (0x2000 \<le> c \<and> c \<le> 0x200A) \<or> c = 0x2028 \<or> c = 0x2029 \<or> c = 0x202F
      \<or> c = 0x205F \<or> c = 0x3000 \<or> c = 0xFEFF)"

definition trim :: "jsstring \<Rightarrow> jsstring" where
  "trim s = rev (dropWhile is_white_space (rev (dropWhile is_white_space s)))"

text \<open>
  \<open>s.split(',')\<close> with a one-unit separator: the segments between the separators, in
  order; an empty string gives one empty segment.
\<close>

fun split :: "code_unit \<Rightarrow> jsstring \<Rightarrow> jsstring list" where
  "split sep [] = [[]]"
| "split sep (c # cs) =
     (if c = sep then [] # split sep cs
      else (c # hd (split sep cs)) # tl (split sep cs))"

text \<open>
  The string iterator (used when a string is spread into an array) yields code points:
  a high surrogate followed by a low surrogate is one element of two code units.
\<close>

definition is_high_surrogate :: "code_unit \<Rightarrow> bool" where
  "is_high_surrogate c = (0xD800 \<le> c \<and> c \<le> 0xDBFF)"

definition is_low_surrogate :: "code_unit \<Rightarrow> bool" where
  "is_low_surrogate c = (0xDC00 \<le> c \<and> c \<le> 0xDFFF)"

fun code_points :: "jsstring \<Rightarrow> jsstring list" where
  "code_points [] = []"
| "code_points [c] = [[c]]"
| "code_points (c # d # cs) =
     (if is_high_surrogate c \<and> is_low_surrogate d then [c, d] # code_points cs
      else [c] # code_points (d # cs))"

section \<open>JSON values and \<open>JSON.parse\<close>\<close>

text \<open>
  The values \<open>JSON.parse\<close> produces. A number is kept as the text of its token: the
  runtime turns it into a double, and the plugin never computes with it (the one
  comparison that can reach a number, \<open>length > 0\<close> on an object, is left to the host
  below).
  An object keeps its members in the order of the text, duplicates included; reading a
  property takes the last one, as the runtime does.
\<close>

datatype json =
    JNull
  | JBool bool
  | JNumber jsstring
  | JString jsstring
  | JArray "json list"
  | JObject "(jsstring \<times> json) list"

datatype token =
    TLBracket | TRBracket | TLBrace | TRBrace | TComma | TColon
  | TString jsstring | TNumber jsstring | TTrue | TFalse | TNull

definition is_json_ws :: "code_unit \<Rightarrow> bool" where
  "is_json_ws c = (c = 0x09 \<or> c = 0x0A \<or> c = 0x0D \<or> c = 0x20)"

definition is_digit :: "code_unit \<Rightarrow> bool" where
  "is_digit c = (0x30 \<le> c \<and> c \<le> 0x39)"

definition hex_digit :: "code_unit \<Rightarrow> code_unit option" where
  "hex_digit c =
     (if 0x30 \<le> c \<and> c \<le> 0x39 then Some (c - 0x30)
      else if 0x41 \<le> c \<and> c \<le> 0x46 then Some (c - 0x37)
      else if 0x61 \<le> c \<and> c \<le> 0x66 then Some (c - 0x57)
      else None)"

definition hex4 :: "code_unit \<Rightarrow> code_unit \<Rightarrow> code_unit \<Rightarrow> code_unit \<Rightarrow> code_unit option" where
  "hex4 a b c d =
     (case (hex_digit a, hex_digit b, hex_digit c, hex_digit d) of
        (Some h1, Some h2, Some h3, Some h4) \<Rightarrow> Some (0x1000 * h1 + 0x100 * h2 + 0x10 * h3 + h4)
      | _ \<Rightarrow> None)"

text \<open>The one-letter escapes: quote, backslash, slash, b, f, n, r, t.\<close>

definition escape_char :: "code_unit \<Rightarrow> code_unit option" where
  "escape_char e =
     (if e = 0x22 \<or> e = 0x5C \<or> e = 0x2F then Some e
      else if e = 0x62 then Some 0x08
      else if e = 0x66 then Some 0x0C
      else if e = 0x6E then Some 0x0A
      else if e = 0x72 then Some 0x0D
      else if e = 0x74 then Some 0x09
      else None)"

definition cons_unit :: "code_unit \<Rightarrow> (jsstring \<times> jsstring) option \<Rightarrow> (jsstring \<times> jsstring) option" where
  "cons_unit u r = map_option (\<lambda>(s, rest). (u # s, rest)) r"

text \<open>
  \<open>lex_string\<close> reads a string token after its opening quote and returns its value
  and the text after the closing quote. Control characters below U+0020 are refused.
\<close>

fun lex_string :: "jsstring \<Rightarrow> (jsstring \<times> jsstring) option" where
  "lex_string [] = None"
| "lex_string (c # cs) =
     (if c = 0x22 then Some ([], cs)
      else if c = 0x5C then
        (case cs of
           [] \<Rightarrow> None
         | e # es \<Rightarrow>
             if e = 0x75 then
               (case es of
                  h1 # h2 # h3 # h4 # r \<Rightarrow>
                    (case hex4 h1 h2 h3 h4 of
                       None \<Rightarrow> None
                     | Some u \<Rightarrow> cons_unit u (lex_string r))
                | _ \<Rightarrow> None)
             else
               (case escape_char e of
                  None \<Rightarrow> None
                | Some u \<Rightarrow> cons_unit u (lex_string es)))
      else if c < 0x20 then None
      else cons_unit c (lex_string cs))"

text \<open>
  A number token: an optional minus, \<open>0\<close> or a digit sequence not starting with
  \<open>0\<close>, an optional fraction and an optional exponent. The longest such prefix is
  taken; \<open>None\<close> when no digit follows the sign.
\<close>

definition lex_int :: "jsstring \<Rightarrow> (jsstring \<times> jsstring) option" where
  "lex_int s =
     (case s of
        [] \<Rightarrow> None
      | d # r \<Rightarrow>
          if d = 0x30 then Some ([d], r)
          else if is_digit d then Some (takeWhile is_digit s, dropWhile is_digit s)
          else None)"

definition lex_frac :: "jsstring \<Rightarrow> jsstring \<times> jsstring" where
  "lex_frac s =
     (case s of
        p # r \<Rightarrow>
          if p = 0x2E \<and> takeWhile is_digit r \<noteq> []
          then (p # takeWhile is_digit r, dropWhile is_digit r)
          else ([], s)
      | [] \<Rightarrow> ([], s))"

definition lex_exp :: "jsstring \<Rightarrow> jsstring \<times> jsstring" where
  "lex_exp s =
     (case s of
        e # r \<Rightarrow>
          if e = 0x65 \<or> e = 0x45 then
            (case r of
               g # r' \<Rightarrow>
                 if (g = 0x2B \<or> g = 0x2D) \<and> takeWhile is_digit r' \<noteq> []
                 then (e # g # takeWhile is_digit r', dropWhile is_digit r')
                 else if takeWhile is_digit r \<noteq> []
                 then (e # takeWhile is_digit r, dropWhile is_digit r)
                 else ([], s)
             | [] \<Rightarrow> ([], s))
          else ([], s)
      | [] \<Rightarrow> ([], s))"

definition lex_number :: "jsstring \<Rightarrow> (jsstring \<times> jsstring) option" where
  "lex_number s =
     (let (sign, s1) = (case s of m # r \<Rightarrow> if m = 0x2D then ([m], r) else ([], s) | [] \<Rightarrow> ([], s))
      in case lex_int s1 of
           None \<Rightarrow> None
         | Some (i, s2) \<Rightarrow>
             (let (f, s3) = lex_frac s2; (e, s4) = lex_exp s3
              in Some (sign @ i @ f @ e, s4)))"

definition cons_token :: "token \<Rightarrow> token list option \<Rightarrow> token list option" where
  "cons_token t r = map_option ((#) t) r"

text \<open>
  The token sequence of a text; \<open>None\<close> where \<open>JSON.parse\<close> throws a SyntaxError for
  a character that starts no token.
\<close>

function tokenize :: "jsstring \<Rightarrow> token list option" where
  "tokenize [] = Some []"
| "tokenize (c # cs) =
     (if is_json_ws c then tokenize cs
      else if c = 0x5B then cons_token TLBracket (tokenize cs)
      else if c = 0x5D then cons_token TRBracket (tokenize cs)
      else if c = 0x7B then cons_token TLBrace (tokenize cs)
      else if c = 0x7D then cons_token TRBrace (tokenize cs)
      else if c = 0x2C then cons_token TComma (tokenize cs)
      else if c = 0x3A then cons_token TColon (tokenize cs)
      else if c = 0x22 then
        (case lex_string cs of
           None \<Rightarrow> None
         | Some (s, rest) \<Rightarrow> cons_token (TString s) (tokenize rest))
      else if c = 0x2D \<or> is_digit c then
        (case lex_number (c # cs) of
           None \<Rightarrow> None
         | Some (n, rest) \<Rightarrow> cons_token (TNumber n) (tokenize rest))
      else if take 4 (c # cs) = ascii ''true'' then cons_token TTrue (tokenize (drop 3 cs))
      else if take 5 (c # cs) = ascii ''false'' then cons_token TFalse (tokenize (drop 4 cs))
      else if take 4 (c # cs) = ascii ''null'' then cons_token TNull (tokenize (drop 3 cs))
      else None)"
  by pat_completeness auto
termination
proof -
  have unit: "\<exists>s'. r = Some (s', rest)" if "cons_unit u r = Some (s, rest)"
    for u r s and rest :: jsstring
    using that by (cases r) (auto simp: cons_unit_def)
  have str: "length rest < length cs" if "lex_string cs = Some (s, rest)" for cs s rest
    using that
  proof (induction cs arbitrary: s rule: lex_string.induct)
    case 1
    then show ?case by simp
  next
    case (2 c cs)
    show ?case
    proof (cases "c = 0x22")
      case True
      with "2.prems" show ?thesis by simp
    next
      case quote: False
      show ?thesis
      proof (cases "c = 0x5C")
        case False
        with quote "2.prems" have nc: "\<not> c < 0x20"
          and r: "cons_unit c (lex_string cs) = Some (s, rest)"
          by (auto split: if_splits)
        from unit [OF r] obtain s' where "lex_string cs = Some (s', rest)" by blast
        with "2.IH"(3) quote False nc show ?thesis by fastforce
      next
        case bs: True
        with quote "2.prems" obtain e es where cs: "cs = e # es"
          by (cases cs) auto
        show ?thesis
        proof (cases "e = 0x75")
          case True
          with quote bs cs "2.prems" obtain h1 h2 h3 h4 r u where
            es: "es = h1 # h2 # h3 # h4 # r" and h: "hex4 h1 h2 h3 h4 = Some u"
            and c: "cons_unit u (lex_string r) = Some (s, rest)"
            by (auto split: list.splits option.splits)
          from unit [OF c] obtain s' where "lex_string r = Some (s', rest)" by blast
          with "2.IH"(1) quote bs cs True es h have "length rest < length r" by fastforce
          with cs es show ?thesis by simp
        next
          case False
          with quote bs cs "2.prems" obtain u where
            h: "escape_char e = Some u" and c: "cons_unit u (lex_string es) = Some (s, rest)"
            by (auto split: option.splits)
          from unit [OF c] obtain s' where "lex_string es = Some (s', rest)" by blast
          with "2.IH"(2) quote bs cs False h have "length rest < length es" by fastforce
          with cs show ?thesis by simp
        qed
      qed
    qed
  qed
  have int: "length rest < length s" if "lex_int s = Some (i, rest)" for s i rest
    using that
    by (cases s) (auto simp: lex_int_def length_dropWhile_le le_imp_less_Suc split: if_splits)
  have frac: "length rest \<le> length s" if "lex_frac s = (f, rest)" for s f rest
    using that
    by (cases s) (auto simp: lex_frac_def length_dropWhile_le le_SucI split: if_splits)
  have exp: "length rest \<le> length s" if "lex_exp s = (e, rest)" for s e rest
    using that
    by (cases s; cases "tl s")
       (auto simp: lex_exp_def length_dropWhile_le le_SucI split: if_splits)
  have num: "length rest < length s" if n: "lex_number s = Some (n, rest)" for s n rest
  proof -
    obtain sign s1 where
      s1: "(case s of m # r \<Rightarrow> if m = 0x2D then ([m], r) else ([], s) | [] \<Rightarrow> ([], s)) = (sign, s1)"
      by (cases "case s of m # r \<Rightarrow> if m = 0x2D then ([m], r) else ([], s) | [] \<Rightarrow> ([], s)") auto
    then have l1: "length s1 \<le> length s"
      by (cases s) (auto split: if_splits)
    from n s1 obtain i s2 where i: "lex_int s1 = Some (i, s2)"
      by (auto simp: lex_number_def split: option.splits)
    obtain f s3 where f: "lex_frac s2 = (f, s3)" by (cases "lex_frac s2")
    obtain e s4 where e: "lex_exp s3 = (e, s4)" by (cases "lex_exp s3")
    from n s1 i f e have "rest = s4"
      by (simp add: lex_number_def)
    with int [OF i] frac [OF f] exp [OF e] l1
    show ?thesis by simp
  qed
  show ?thesis
    by (relation "measure length") (auto dest: str num simp: less_Suc_eq_le)
qed

text \<open>
  The grammar over tokens, as a stack machine. A frame is an array or an object that is
  still open, with what has been read of it (latest first).
\<close>

datatype frame =
    InArray "json list"
  | InObject "(jsstring \<times> json) list" jsstring

datatype pstate =
    Value "frame list"
  | FirstElem "frame list"
  | AfterElem "json list" "frame list"
  | FirstKey "frame list"
  | Key "(jsstring \<times> json) list" "frame list"
  | Colon "(jsstring \<times> json) list" jsstring "frame list"
  | AfterMember "(jsstring \<times> json) list" "frame list"
  | Done json

fun complete :: "json \<Rightarrow> frame list \<Rightarrow> pstate" where
  "complete v [] = Done v"
| "complete v (InArray acc # fs) = AfterElem (v # acc) fs"
| "complete v (InObject ms k # fs) = AfterMember ((k, v) # ms) fs"

fun start_value :: "frame list \<Rightarrow> token \<Rightarrow> pstate option" where
  "start_value fs TLBracket = Some (FirstElem fs)"
| "start_value fs TLBrace = Some (FirstKey fs)"
| "start_value fs (TString s) = Some (complete (JString s) fs)"
| "start_value fs (TNumber n) = Some (complete (JNumber n) fs)"
| "start_value fs TTrue = Some (complete (JBool True) fs)"
| "start_value fs TFalse = Some (complete (JBool False) fs)"
| "start_value fs TNull = Some (complete JNull fs)"
| "start_value fs _ = None"

fun step :: "pstate \<Rightarrow> token \<Rightarrow> pstate option" where
  "step (Value fs) t = start_value fs t"
| "step (FirstElem fs) TRBracket = Some (complete (JArray []) fs)"
| "step (FirstElem fs) t = start_value (InArray [] # fs) t"
| "step (AfterElem acc fs) TComma = Some (Value (InArray acc # fs))"
| "step (AfterElem acc fs) TRBracket = Some (complete (JArray (rev acc)) fs)"
| "step (FirstKey fs) TRBrace = Some (complete (JObject []) fs)"
| "step (FirstKey fs) (TString k) = Some (Colon [] k fs)"
| "step (Key ms fs) (TString k) = Some (Colon ms k fs)"
| "step (Colon ms k fs) TColon = Some (Value (InObject ms k # fs))"
| "step (AfterMember ms fs) TComma = Some (Key ms fs)"
| "step (AfterMember ms fs) TRBrace = Some (complete (JObject (rev ms)) fs)"
| "step _ _ = None"

fun run :: "pstate \<Rightarrow> token list \<Rightarrow> json option" where
  "run st [] = (case st of Done v \<Rightarrow> Some v | _ \<Rightarrow> None)"
| "run st (t # ts) = (case step st t of None \<Rightarrow> None | Some st' \<Rightarrow> run st' ts)"

text \<open>\<open>JSON.parse(text)\<close>: the value, or \<open>None\<close> where it throws a SyntaxError.\<close>

definition JSON_parse :: "jsstring \<Rightarrow> json option" where
  "JSON_parse s = (case tokenize s of None \<Rightarrow> None | Some ts \<Rightarrow> run (Value []) ts)"

section \<open>Reading the reply (\<open>getAliases\<close>, lines 112 to 122; \<open>getDeclensions\<close>, lines 85 to 95)\<close>

text \<open>
  \<open>try { aliasesArray = JSON.parse(content) } catch (e) { aliasesArray =
  content.split(',').map(s => s.trim()) }\<close>: the parsed value whatever its shape, and
  the comma split only where \<open>JSON.parse\<close> throws.
\<close>

definition comma :: code_unit where
  "comma = 0x2C"

definition parse_reply :: "jsstring \<Rightarrow> json" where
  "parse_reply content =
     (case JSON_parse content of
        Some v \<Rightarrow> v
      | None \<Rightarrow> JArray (map (\<lambda>s. JString (trim s)) (split comma content)))"

section \<open>Reading properties of a parsed value\<close>

text \<open>
  What a statement throws. A rejected \<open>fetch\<close> is \<open>FetchFailure\<close>. \<open>None\<close> as a
  value is \<open>undefined\<close>.
\<close>

datatype thrown = SyntaxError | TypeError | FetchFailure

type_synonym jsval = "json option"

definition own_property :: "(jsstring \<times> json) list \<Rightarrow> jsstring \<Rightarrow> jsval" where
  "own_property ms k = map_of (rev ms) k"

text \<open>
  \<open>v.k\<close> for the keys the plugin reads (\<open>choices\<close>, \<open>message\<close>, \<open>content\<close>,
  \<open>error\<close>), none of which is a property of a string, number, boolean or array:
  a TypeError on \<open>undefined\<close> and \<open>null\<close>, the own property of an object,
  \<open>undefined\<close> otherwise.
\<close>

fun get_member :: "jsval \<Rightarrow> jsstring \<Rightarrow> thrown + jsval" where
  "get_member None k = Inl TypeError"
| "get_member (Some JNull) k = Inl TypeError"
| "get_member (Some (JObject ms)) k = Inr (own_property ms k)"
| "get_member (Some _) k = Inr None"

text \<open>\<open>v[0]\<close>.\<close>

fun get_first :: "jsval \<Rightarrow> thrown + jsval" where
  "get_first None = Inl TypeError"
| "get_first (Some JNull) = Inl TypeError"
| "get_first (Some (JArray xs)) = Inr (case xs of [] \<Rightarrow> None | x # _ \<Rightarrow> Some x)"
| "get_first (Some (JString s)) = Inr (case s of [] \<Rightarrow> None | c # _ \<Rightarrow> Some (JString [c]))"
| "get_first (Some (JObject ms)) = Inr (own_property ms (ascii ''0''))"
| "get_first (Some _) = Inr None"

text \<open>\<open>v.trim()\<close>: only a string has a callable \<open>trim\<close>.\<close>

fun call_trim :: "jsval \<Rightarrow> thrown + jsstring" where
  "call_trim (Some (JString s)) = Inr (trim s)"
| "call_trim _ = Inl TypeError"

definition and_then :: "thrown + 'a \<Rightarrow> ('a \<Rightarrow> thrown + 'b) \<Rightarrow> thrown + 'b" where
  "and_then r f = (case r of Inl e \<Rightarrow> Inl e | Inr v \<Rightarrow> f v)"

text \<open>\<open>data.choices[0].message.content.trim()\<close>\<close>

definition reply_content :: "json \<Rightarrow> thrown + jsstring" where
  "reply_content data =
     and_then (get_member (Some data) (ascii ''choices'')) (\<lambda>choices.
     and_then (get_first choices) (\<lambda>choice.
     and_then (get_member choice (ascii ''message'')) (\<lambda>message.
     and_then (get_member message (ascii ''content'')) call_trim)))"

text \<open>
  Converting a value to a string inside a template literal throws a TypeError when the
  value is an object with an own \<open>toString\<close> member (which is never callable), or an
  array holding one.
\<close>

fun to_string_throws :: "json \<Rightarrow> bool" where
  "to_string_throws (JObject ms) = (ascii ''toString'' \<in> set (map fst ms))"
| "to_string_throws (JArray xs) = list_ex to_string_throws xs"
| "to_string_throws _ = False"

text \<open>\<open>errorData.error.message\<close> as the template literal of line 105 reads it.\<close>

definition error_message :: "json \<Rightarrow> thrown + jsval" where
  "error_message errorData =
     and_then (get_member (Some errorData) (ascii ''error'')) (\<lambda>err.
     and_then (get_member err (ascii ''message'')) (\<lambda>m.
       case m of
         None \<Rightarrow> Inr None
       | Some v \<Rightarrow> if to_string_throws v then Inl TypeError else Inr m))"

section \<open>The host and what the plugin does to it\<close>

text \<open>
  The notices are the six fixed messages of the source: no open file (line 32), enter
  the API key (line 40), aliases updated (line 61), aliases not obtained (line 63), the
  API error with the provider's message (line 105) and the request failure that asks to
  check the internet connection (line 125).
\<close>

datatype notice =
    NoOpenFile
  | EnterApiKey
  | AliasesUpdated
  | AliasesNotObtained
  | ApiError jsval
  | RequestFailed

datatype logged = ApiErrorData json | Caught thrown

record request =
  bearer :: jsstring
  note_title :: jsstring
  note_content :: "jsstring option"

text \<open>
  What an invocation does, in order: a notice shown, a line of \<open>console.error\<close>, a
  call of \<open>fetch\<close>, the assignment of \<open>frontmatter.aliases\<close>, and an error that
  leaves \<open>addAliases\<close> uncaught.
\<close>

datatype event =
    Notice notice
  | ConsoleError logged
  | Fetch request
  | Write "json list"
  | Uncaught thrown

datatype response = Rejected | Response bool jsstring

record settings =
  openaiApiKey :: jsstring
  maxContentLength :: int

record tfile =
  basename :: jsstring

record front_matter =
  aliases :: jsval

record cached_metadata =
  frontmatter :: "front_matter option"

text \<open>
  The host: the active file, the settings, the text \<open>vault.read\<close> returns, the
  metadata cache of the file, what the one call of \<open>fetch\<close> yields (a rejection, or
  a response with its \<open>ok\<close> flag and body text), and the runtime's comparison
  \<open>v > 0\<close>, which converts \<open>v\<close> to a double and may throw.
\<close>

record host =
  activeFile :: "tfile option"
  plugin_settings :: settings
  vault_read :: jsstring
  fileCache :: "cached_metadata option"
  fetched :: response
  greater_than_zero :: "json \<Rightarrow> thrown + bool"

section \<open>The excerpt of the note (\<open>addAliases\<close>, lines 45 to 54)\<close>

definition line_feed :: code_unit where
  "line_feed = 0x0A"

definition open_delimiter :: jsstring where
  "open_delimiter = ascii ''---'' @ [line_feed]"

definition close_delimiter :: jsstring where
  "close_delimiter = line_feed # ascii ''---'' @ [line_feed]"

text \<open>The text after the first occurrence of a pattern.\<close>

fun after_first :: "jsstring \<Rightarrow> jsstring \<Rightarrow> jsstring option" where
  "after_first pat [] = (if pat = [] then Some [] else None)"
| "after_first pat (c # cs) =
     (if prefix pat (c # cs) then Some (drop (length pat) (c # cs))
      else after_first pat cs)"

text \<open>
  \<open>fileContent.replace(/^---\n[\s\S]*?\n---\n/, '')\<close>: the pattern is anchored at the
  start, and the lazy quantifier stops at the first closing delimiter.
\<close>

definition strip_front_matter :: "jsstring \<Rightarrow> jsstring" where
  "strip_front_matter s =
     (if prefix open_delimiter s then
        (case after_first close_delimiter (drop (length open_delimiter) s) of
           None \<Rightarrow> s
         | Some rest \<Rightarrow> rest)
      else s)"

text \<open>\<open>s.substring(0, n)\<close>: a negative end counts as 0.\<close>

definition substring0 :: "jsstring \<Rightarrow> int \<Rightarrow> jsstring" where
  "substring0 s n = take (nat n) s"

definition excerpt :: "int \<Rightarrow> jsstring \<Rightarrow> jsstring" where
  "excerpt maxLen content =
     (let fileContent = strip_front_matter content
      in if int (length fileContent) > maxLen then substring0 fileContent maxLen
         else fileContent)"

section \<open>\<open>updateFrontMatter\<close> (lines 130 to 153)\<close>

text \<open>
  Lines 135 to 144. An array is truthy and taken as it is; a string is truthy unless
  empty; any other value, truthy or not, leaves the empty array.
\<close>

definition existingAliases :: "cached_metadata option \<Rightarrow> json list" where
  "existingAliases cache =
     (case cache of
        None \<Rightarrow> []
      | Some c \<Rightarrow>
          (case frontmatter c of
             None \<Rightarrow> []
           | Some fm \<Rightarrow>
               (case aliases fm of
                  Some (JArray xs) \<Rightarrow> xs
                | Some (JString s) \<Rightarrow> if s = [] then [] else [JString s]
                | _ \<Rightarrow> [])))"

text \<open>
  \<open>...aliasesArray\<close>: an array gives its elements, a string its code points; anything
  else is not iterable.
\<close>

fun spread :: "json \<Rightarrow> thrown + json list" where
  "spread (JArray xs) = Inr xs"
| "spread (JString s) = Inr (map JString (code_points s))"
| "spread _ = Inl TypeError"

text \<open>
  \<open>Array.from(new Set(xs))\<close>: a Set keeps its elements in insertion order, and adding
  an element it already has changes nothing. Aliases are declared strings, which a Set
  takes for equal exactly when their code units are equal, as here. On other values this
  comparison is not the runtime's (which compares numbers as doubles and objects and
  arrays by identity); every theorem on merging below is stated for string elements.
\<close>

definition Set_add :: "'a list \<Rightarrow> 'a \<Rightarrow> 'a list" where
  "Set_add s x = (if x \<in> set s then s else s @ [x])"

definition new_Set :: "'a list \<Rightarrow> 'a list" where
  "new_Set xs = foldl Set_add [] xs"

text \<open>The value assigned to \<open>frontmatter.aliases\<close>, or what the spread throws.\<close>

definition updateFrontMatter :: "cached_metadata option \<Rightarrow> json \<Rightarrow> thrown + json list" where
  "updateFrontMatter cache aliasesArray =
     (let existing = existingAliases cache
      in case spread aliasesArray of
           Inl e \<Rightarrow> Inl e
         | Inr discovered \<Rightarrow> Inr (new_Set (existing @ discovered)))"

section \<open>\<open>getAliases\<close> (lines 67 to 128)\<close>

text \<open>The body of the \<open>try\<close>: what it logs and shows, and what it returns or throws.\<close>

definition getAliases_try :: "response \<Rightarrow> event list \<times> (thrown + json)" where
  "getAliases_try r =
     (case r of
        Rejected \<Rightarrow> ([], Inl FetchFailure)
      | Response ok body \<Rightarrow>
          if \<not> ok then
            (case JSON_parse body of
               None \<Rightarrow> ([], Inl SyntaxError)
             | Some errorData \<Rightarrow>
                 (case error_message errorData of
                    Inl e \<Rightarrow> ([ConsoleError (ApiErrorData errorData)], Inl e)
                  | Inr m \<Rightarrow>
                      ([ConsoleError (ApiErrorData errorData), Notice (ApiError m)],
                       Inr (JArray []))))
          else
            (case JSON_parse body of
               None \<Rightarrow> ([], Inl SyntaxError)
             | Some data \<Rightarrow>
                 (case reply_content data of
                    Inl e \<Rightarrow> ([], Inl e)
                  | Inr content \<Rightarrow> ([], Inr (parse_reply content)))))"

definition getAliases :: "host \<Rightarrow> jsstring \<Rightarrow> jsstring \<Rightarrow> event list \<times> json" where
  "getAliases h title content =
     (let sent = Fetch \<lparr>bearer = openaiApiKey (plugin_settings h), note_title = title,
                        note_content = Some content\<rparr>
      in case getAliases_try (fetched h) of
           (evs, Inr v) \<Rightarrow> (sent # evs, v)
         | (evs, Inl e) \<Rightarrow>
             (sent # evs @ [ConsoleError (Caught e), Notice RequestFailed], JArray []))"

section \<open>\<open>getDeclensions\<close> (the earlier version of the file, lines 53 to 104)\<close>

definition getDeclensions_try :: "response \<Rightarrow> event list \<times> (thrown + json)" where
  "getDeclensions_try r =
     (case r of
        Rejected \<Rightarrow> ([], Inl FetchFailure)
      | Response ok body \<Rightarrow>
          (case JSON_parse body of
             None \<Rightarrow> ([], Inl SyntaxError)
           | Some data \<Rightarrow>
               if ok then
                 (case reply_content data of
                    Inl e \<Rightarrow> ([], Inl e)
                  | Inr content \<Rightarrow> ([], Inr (parse_reply content)))
               else ([ConsoleError (ApiErrorData data)], Inr (JArray []))))"

definition getDeclensions :: "host \<Rightarrow> jsstring \<Rightarrow> event list \<times> json" where
  "getDeclensions h title =
     (let sent = Fetch \<lparr>bearer = openaiApiKey (plugin_settings h), note_title = title,
                        note_content = None\<rparr>
      in case getDeclensions_try (fetched h) of
           (evs, Inr v) \<Rightarrow> (sent # evs, v)
         | (evs, Inl e) \<Rightarrow> (sent # evs @ [ConsoleError (Caught e)], JArray []))"

section \<open>\<open>addAliases\<close> (lines 28 to 65)\<close>

text \<open>
  \<open>aliasesArray && aliasesArray.length > 0\<close>. \<open>null\<close>, \<open>false\<close> and \<open>0\<close> are
  falsy, and \<open>true\<close> and the other numbers have no \<open>length\<close>, so all of them fail
  the test; an object passes or fails on its own \<open>length\<close> member, which the
  runtime compares with zero (\<open>gt\<close>).
\<close>

fun has_elements :: "(json \<Rightarrow> thrown + bool) \<Rightarrow> json \<Rightarrow> thrown + bool" where
  "has_elements gt (JArray xs) = Inr (xs \<noteq> [])"
| "has_elements gt (JString s) = Inr (s \<noteq> [])"
| "has_elements gt (JObject ms) =
     (case own_property ms (ascii ''length'') of
        None \<Rightarrow> Inr False
      | Some v \<Rightarrow> gt v)"
| "has_elements gt _ = Inr False"

text \<open>Lines 59 to 64, the same in both versions.\<close>

definition write_back :: "host \<Rightarrow> json \<Rightarrow> event list" where
  "write_back h aliasesArray =
     (case has_elements (greater_than_zero h) aliasesArray of
        Inl e \<Rightarrow> [Uncaught e]
      | Inr True \<Rightarrow>
          (case updateFrontMatter (fileCache h) aliasesArray of
             Inl e \<Rightarrow> [Uncaught e]
           | Inr combinedAliases \<Rightarrow> [Write combinedAliases, Notice AliasesUpdated])
      | Inr False \<Rightarrow> [Notice AliasesNotObtained])"

definition addAliases :: "host \<Rightarrow> event list" where
  "addAliases h =
     (case activeFile h of
        None \<Rightarrow> [Notice NoOpenFile]
      | Some f \<Rightarrow>
          if openaiApiKey (plugin_settings h) = [] then [Notice EnterApiKey]
          else
            (let fileContent = excerpt (maxContentLength (plugin_settings h)) (vault_read h);
                 (evs, aliasesArray) = getAliases h (basename f) fileContent
             in evs @ write_back h aliasesArray))"

text \<open>The earlier version (lines 26 to 51): the title alone goes to the model.\<close>

definition addAliases_title_only :: "host \<Rightarrow> event list" where
  "addAliases_title_only h =
     (case activeFile h of
        None \<Rightarrow> [Notice NoOpenFile]
      | Some f \<Rightarrow>
          if openaiApiKey (plugin_settings h) = [] then [Notice EnterApiKey]
          else
            (let (evs, aliasesArray) = getDeclensions h (basename f)
             in evs @ write_back h aliasesArray))"

text \<open>What an observer reads off the events.\<close>

definition network_calls :: "event list \<Rightarrow> request list" where
  "network_calls evs = [r. Fetch r \<leftarrow> evs]"

definition writes :: "event list \<Rightarrow> json list list" where
  "writes evs = [w. Write w \<leftarrow> evs]"

definition notices :: "event list \<Rightarrow> notice list" where
  "notices evs = [n. Notice n \<leftarrow> evs]"

section \<open>The alias collection as the data model describes it\<close>

text \<open>
  The \<open>aliases\<close> field of a document is absent, a single string or a sequence of
  strings; \<open>stored\<close> is the value the metadata cache holds for it, and \<open>normalized\<close>
  the sequence the design takes it for.
\<close>

datatype existing = Absent | Single jsstring | Sequence "jsstring list"

definition string_array :: "jsstring list \<Rightarrow> json" where
  "string_array xs = JArray (map JString xs)"

fun stored :: "existing \<Rightarrow> jsval" where
  "stored Absent = None"
| "stored (Single s) = Some (JString s)"
| "stored (Sequence xs) = Some (string_array xs)"

fun normalized :: "existing \<Rightarrow> jsstring list" where
  "normalized Absent = []"
| "normalized (Single s) = [s]"
| "normalized (Sequence xs) = xs"

definition cache_with :: "jsval \<Rightarrow> cached_metadata option" where
  "cache_with v = Some \<lparr>frontmatter = Some \<lparr>aliases = v\<rparr>\<rparr>"

fun is_array_value :: "jsval \<Rightarrow> bool" where
  "is_array_value (Some (JArray xs)) = True"
| "is_array_value _ = False"

fun is_string_value :: "jsval \<Rightarrow> bool" where
  "is_string_value (Some (JString s)) = True"
| "is_string_value _ = False"

text \<open>
  Deduplication that keeps the first occurrence of each value: the elements that do
  not occur at an earlier index, in the order of the list.
\<close>
definition first_occurrences :: "'a list \<Rightarrow> 'a list" where
  "first_occurrences xs = [xs ! i. i \<leftarrow> [0..<length xs], xs ! i \<notin> set (take i xs)]"

section \<open>Texts and hosts for the examples\<close>

text \<open>
  A string between double quotes, with a backslash before each double quote and
  backslash.
\<close>

definition double_quote :: code_unit where
  "double_quote = 0x22"

definition escape_unit :: "code_unit \<Rightarrow> jsstring" where
  "escape_unit c = (if c = 0x22 \<or> c = 0x5C then [0x5C, c] else [c])"

definition quoted :: "jsstring \<Rightarrow> jsstring" where
  "quoted s = double_quote # concat (map escape_unit s) @ [double_quote]"

text \<open>
  The body of a successful completion whose first choice has the given content, and a
  host with an open note, a key, a cap of five code units and one existing alias.
\<close>

definition reply_body :: "jsstring \<Rightarrow> jsstring" where
  "reply_body content =
     ascii ''{'' @ quoted (ascii ''choices'') @ ascii '':[{'' @ quoted (ascii ''message'')
     @ ascii '':{'' @ quoted (ascii ''content'') @ ascii '':'' @ quoted content @ ascii ''}}]}''"

definition sample_host :: "response \<Rightarrow> host" where
  "sample_host r =
     \<lparr>activeFile = Some \<lparr>basename = ascii ''Oka''\<rparr>,
      plugin_settings = \<lparr>openaiApiKey = ascii ''sk-1'', maxContentLength = 5\<rparr>,
      vault_read = open_delimiter @ ascii ''aliases: [x]'' @ close_delimiter @ ascii ''A river.'',
      fileCache = cache_with (Some (string_array [ascii ''x''])),
      fetched = r,
      greater_than_zero = (\<lambda>v. Inr False)\<rparr>"

definition sample_request :: request where
  "sample_request = \<lparr>bearer = ascii ''sk-1'', note_title = ascii ''Oka'',
                      note_content = Some (ascii ''A riv'')\<rparr>"


text \<open>
  The JSON texts that are arrays of strings, by the grammar of ECMA-404 and apart from
  the parser above. A string is a double quote, characters and a double quote; a
  character is any code unit from U+0020 on except the double quote and the backslash,
  or a backslash with one of the eight letters, or \<open>\u\<close> with four hexadecimal digits
  in either case. White space is space, line feed, carriage return and tab. An array is
  \<open>[\<close>, white space, elements separated by commas, \<open>]\<close>, with white space around
  it; an element is a string with white space on both sides.
\<close>

datatype escape =
    EQuote | EBackslash | ESlash | EBackspace | EFormFeed | ELineFeed | EReturn | ETab

fun escape_letter :: "escape \<Rightarrow> code_unit" where
  "escape_letter EQuote = 0x22"
| "escape_letter EBackslash = 0x5C"
| "escape_letter ESlash = 0x2F"
| "escape_letter EBackspace = 0x62"
| "escape_letter EFormFeed = 0x66"
| "escape_letter ELineFeed = 0x6E"
| "escape_letter EReturn = 0x72"
| "escape_letter ETab = 0x74"

fun escape_value :: "escape \<Rightarrow> code_unit" where
  "escape_value EQuote = 0x22"
| "escape_value EBackslash = 0x5C"
| "escape_value ESlash = 0x2F"
| "escape_value EBackspace = 0x08"
| "escape_value EFormFeed = 0x0C"
| "escape_value ELineFeed = 0x0A"
| "escape_value EReturn = 0x0D"
| "escape_value ETab = 0x09"

datatype hexit = Hexit (digit: nat) (upper: bool)

definition hexit_char :: "hexit \<Rightarrow> code_unit" where
  "hexit_char h =
     (if upper h then ascii ''0123456789ABCDEF'' else ascii ''0123456789abcdef'') ! digit h"

datatype item =
    Plain code_unit
  | Escaped escape
  | Unicode hexit hexit hexit hexit

fun item_text :: "item \<Rightarrow> jsstring" where
  "item_text (Plain c) = [c]"
| "item_text (Escaped e) = [0x5C, escape_letter e]"
| "item_text (Unicode a b c d) = [0x5C, 0x75, hexit_char a, hexit_char b, hexit_char c, hexit_char d]"

fun item_value :: "item \<Rightarrow> code_unit" where
  "item_value (Plain c) = c"
| "item_value (Escaped e) = escape_value e"
| "item_value (Unicode a b c d) =
     of_nat (4096 * digit a + 256 * digit b + 16 * digit c + digit d)"

fun item_ok :: "item \<Rightarrow> bool" where
  "item_ok (Plain c) = (\<not> c < 0x20 \<and> c \<noteq> 0x22 \<and> c \<noteq> 0x5C)"
| "item_ok (Escaped e) = True"
| "item_ok (Unicode a b c d) = (digit a < 16 \<and> digit b < 16 \<and> digit c < 16 \<and> digit d < 16)"

definition blank :: "jsstring \<Rightarrow> bool" where
  "blank w = list_all (\<lambda>c. c \<in> set [0x20, 0x0A, 0x0D, 0x09]) w"

record element =
  before :: jsstring
  items :: "item list"
  after :: jsstring

definition element_text :: "element \<Rightarrow> jsstring" where
  "element_text e =
     before e @ [0x22] @ concat (map item_text (items e)) @ [0x22] @ after e"

definition element_value :: "element \<Rightarrow> jsstring" where
  "element_value e = map item_value (items e)"

definition element_ok :: "element \<Rightarrow> bool" where
  "element_ok e = (blank (before e) \<and> list_all item_ok (items e) \<and> blank (after e))"

fun elements_text :: "element list \<Rightarrow> jsstring" where
  "elements_text [] = []"
| "elements_text [e] = element_text e"
| "elements_text (e # e' # es) = element_text e @ [0x2C] @ elements_text (e' # es)"

record array_text =
  lead :: jsstring
  inner :: jsstring
  elements :: "element list"
  trail :: jsstring

definition array_text_of :: "array_text \<Rightarrow> jsstring" where
  "array_text_of t = lead t @ [0x5B] @ inner t @ elements_text (elements t) @ [0x5D] @ trail t"

definition array_ok :: "array_text \<Rightarrow> bool" where
  "array_ok t = (blank (lead t) \<and> blank (inner t) \<and> list_all element_ok (elements t)
                 \<and> blank (trail t))"

definition array_value :: "array_text \<Rightarrow> jsstring list" where
  "array_value t = map element_value (elements t)"

text \<open>The tokens of an array of strings.\<close>

fun element_tokens :: "jsstring list \<Rightarrow> token list" where
  "element_tokens [] = []"
| "element_tokens [x] = [TString x]"
| "element_tokens (x # y # ys) = TString x # TComma # element_tokens (y # ys)"

text \<open>An array written on several lines, with an escape and a \<open>\u\<close> escape.\<close>

definition sample_array_text :: array_text where
  "sample_array_text =
     \<lparr>lead = [], inner = [0x0A],
      elements =
        [\<lparr>before = [0x20],
          items = [Plain 0x4F, Escaped ELineFeed, Unicode (Hexit 0 False) (Hexit 0 False) (Hexit 4 False) (Hexit 11 True)],
          after = []\<rparr>,
         \<lparr>before = [0x0A, 0x20], items = [Plain 0x61], after = [0x09]\<rparr>,
         \<lparr>before = [], items = [Plain 0x61], after = [0x0D, 0x0A]\<rparr>],
      trail = []\<rparr>"

text \<open>
  The content of a completion, where the body has it: the member \<open>choices\<close> of the
  body, its first element, the member \<open>message\<close> of that, and its member \<open>content\<close>
  when that is a string; \<open>None\<close> when one of them is missing or the content is not a
  string.
\<close>

fun member_of :: "json \<Rightarrow> jsstring \<Rightarrow> json option" where
  "member_of (JObject ms) k = own_property ms k"
| "member_of _ k = None"

fun first_of :: "json \<Rightarrow> json option" where
  "first_of (JArray (x # xs)) = Some x"
| "first_of (JString (c # s)) = Some (JString [c])"
| "first_of (JObject ms) = own_property ms (ascii ''0'')"
| "first_of _ = None"


section \<open>Properties of the Set\<close>

lemma new_Set_snoc: "new_Set (xs @ [x]) = Set_add (new_Set xs) x"
  by (simp add: new_Set_def)

lemma set_new_Set: "set (new_Set xs) = set xs"
  by (induction xs rule: rev_induct) (auto simp: new_Set_snoc Set_add_def new_Set_def)

lemma distinct_new_Set: "distinct (new_Set xs)"
  by (induction xs rule: rev_induct) (auto simp: new_Set_snoc Set_add_def new_Set_def)

lemma first_occurrences_snoc:
  "first_occurrences (xs @ [x]) =
     (if x \<in> set xs then first_occurrences xs else first_occurrences xs @ [x])"
proof -
  have "[(xs @ [x]) ! i. i \<leftarrow> [0..<length xs], (xs @ [x]) ! i \<notin> set (take i (xs @ [x]))]
        = [xs ! i. i \<leftarrow> [0..<length xs], xs ! i \<notin> set (take i xs)]"
    by (rule arg_cong [where f = concat], rule map_cong) (auto simp: nth_append)
  then show ?thesis
    by (simp add: first_occurrences_def)
qed

lemma new_Set_first_occurrences: "new_Set xs = first_occurrences xs"
proof (induction xs rule: rev_induct)
  case Nil
  show ?case by (simp add: new_Set_def first_occurrences_def)
next
  case (snoc x xs)
  have "x \<in> set (new_Set xs) \<longleftrightarrow> x \<in> set xs" by (simp add: set_new_Set)
  with snoc show ?case
    by (simp add: new_Set_snoc first_occurrences_snoc Set_add_def)
qed

lemma foldl_Set_add_prefix: "prefix acc (foldl Set_add acc xs)"
proof (induction xs arbitrary: acc)
  case Nil
  show ?case by simp
next
  case (Cons x xs)
  have "prefix acc (Set_add acc x)" by (simp add: Set_add_def)
  also have "prefix (Set_add acc x) (foldl Set_add (Set_add acc x) xs)" by (rule Cons.IH)
  finally show ?case by simp
qed

lemma new_Set_append: "new_Set (xs @ ys) = foldl Set_add (new_Set xs) ys"
  by (simp add: new_Set_def)

lemma new_Set_prefix: "prefix (new_Set xs) (new_Set (xs @ ys))"
  by (simp add: new_Set_append foldl_Set_add_prefix)

lemma new_Set_Nil: "new_Set [] = []"
  by (simp add: new_Set_def)

lemma new_Set_distinct_id: "distinct xs \<Longrightarrow> new_Set xs = xs"
  by (induction xs rule: rev_induct) (auto simp: new_Set_Nil new_Set_snoc Set_add_def set_new_Set)

lemma new_Set_map_inj: "inj f \<Longrightarrow> new_Set (map f xs) = map f (new_Set xs)"
proof (induction xs rule: rev_induct)
  case Nil
  show ?case by (simp add: new_Set_def)
next
  case (snoc x xs)
  then show ?case
    by (auto simp: new_Set_snoc Set_add_def set_new_Set inj_image_mem_iff)
qed

lemma new_Set_idem_append: "new_Set (new_Set (xs @ ys) @ ys) = new_Set (xs @ ys)"
proof -
  have "set zs \<subseteq> set acc \<Longrightarrow> foldl Set_add acc zs = acc" for acc zs :: "'a list"
    by (induction zs arbitrary: acc) (auto simp: Set_add_def)
  then have "foldl Set_add (new_Set (xs @ ys)) ys = new_Set (xs @ ys)"
    by (simp add: set_new_Set)
  moreover have "new_Set (new_Set (xs @ ys)) = new_Set (xs @ ys)"
    by (simp add: new_Set_distinct_id distinct_new_Set)
  ultimately show ?thesis
    by (simp add: new_Set_append)
qed

section \<open>Splitting and trimming\<close>

lemma split_not_empty: "split sep s \<noteq> []"
  by (induction s) auto

lemma split_rejoin: "concat (map ((#) sep) (split sep s)) = sep # s"
proof (induction s)
  case Nil
  show ?case by simp
next
  case (Cons c cs)
  obtain seg segs where r: "split sep cs = seg # segs"
    using split_not_empty [of sep cs] by (cases "split sep cs") auto
  with Cons show ?case by auto
qed

lemma split_no_separator: "seg \<in> set (split sep s) \<Longrightarrow> sep \<notin> set seg"
proof (induction s arbitrary: seg)
  case Nil
  then show ?case by simp
next
  case (Cons c cs)
  obtain x xs where r: "split sep cs = x # xs"
    using split_not_empty [of sep cs] by (cases "split sep cs") auto
  with Cons show ?case by (auto split: if_splits)
qed

lemma trim_sandwich:
  "\<exists>l r. s = l @ trim s @ r \<and> list_all is_white_space l \<and> list_all is_white_space r"
proof -
  let ?t = "dropWhile is_white_space s"
  have "?t = rev (takeWhile is_white_space (rev ?t) @ dropWhile is_white_space (rev ?t))"
    by (simp only: takeWhile_dropWhile_id rev_rev_ident)
  then have t: "?t = trim s @ rev (takeWhile is_white_space (rev ?t))"
    by (simp only: rev_append trim_def)
  have "s = takeWhile is_white_space s @ ?t" by simp
  with t have "s = takeWhile is_white_space s @ trim s @ rev (takeWhile is_white_space (rev ?t))"
    by simp
  moreover have "list_all is_white_space (takeWhile is_white_space s)"
    by (simp add: list_all_iff) (meson set_takeWhileD)
  moreover have "list_all is_white_space (rev (takeWhile is_white_space (rev ?t)))"
    by (simp add: list_all_iff) (meson set_takeWhileD)
  ultimately show ?thesis by blast
qed

lemma trim_ends:
  assumes "trim s \<noteq> []"
  shows "\<not> is_white_space (hd (trim s)) \<and> \<not> is_white_space (last (trim s))"
proof -
  let ?t = "dropWhile is_white_space s"
  let ?u = "dropWhile is_white_space (rev ?t)"
  from assms have u: "?u \<noteq> []" by (simp add: trim_def)
  then have "\<not> is_white_space (hd ?u)" by (rule hd_dropWhile)
  moreover have "last (trim s) = hd ?u"
    using u by (simp add: trim_def last_rev)
  moreover have "\<not> is_white_space (hd (trim s))"
  proof -
    have t: "?t \<noteq> []"
    proof
      assume "?t = []"
      then have "?u = []" by (simp only: rev.simps(1) dropWhile.simps(1))
      with u show False by contradiction
    qed
    then have nh: "\<not> is_white_space (hd ?t)" by (rule hd_dropWhile)
    have "?t = rev (takeWhile is_white_space (rev ?t) @ ?u)"
      by (simp only: takeWhile_dropWhile_id rev_rev_ident)
    then have "?t = trim s @ rev (takeWhile is_white_space (rev ?t))"
      by (simp only: rev_append trim_def)
    then have "hd ?t = hd (trim s @ rev (takeWhile is_white_space (rev ?t)))"
      by (rule arg_cong)
    with assms have "hd ?t = hd (trim s)" by simp
    with nh show ?thesis by simp
  qed
  ultimately show ?thesis by simp
qed

section \<open>The reply parser\<close>

lemma parse_reply_on_syntax_error:
  "JSON_parse raw = None \<Longrightarrow> parse_reply raw = string_array (map trim (split comma raw))"
  by (simp add: parse_reply_def string_array_def comp_def)

text \<open>
  C1. The design asks for the comma split whenever the reply is not an array of
  strings. \<open>JSON.parse\<close> accepts the quoted string \<open>"a, b"\<close>, the second format
  the prompt itself shows, so nothing is thrown and no split happens: the value
  returned is the string, declared \<open>string[]\<close>, and \<open>updateFrontMatter\<close> spreads it
  into its characters.
\<close>

theorem quoted_reply_not_split:
  "parse_reply (quoted (ascii ''a, b'')) = JString (ascii ''a, b'')
   \<and> parse_reply (quoted (ascii ''a, b''))
        \<noteq> string_array (map trim (split comma (quoted (ascii ''a, b''))))
   \<and> addAliases (sample_host (Response True (reply_body (quoted (ascii ''a, b''))))) =
       [Fetch sample_request,
        Write (map JString [ascii ''x'', ascii ''a'', ascii '','', ascii '' '', ascii ''b'']),
        Notice AliasesUpdated]"
  by code_simp

lemma tokenize_blank: "blank w \<Longrightarrow> tokenize (w @ rest) = tokenize rest"
  by (induction w) (auto simp: blank_def is_json_ws_def)

lemma hexit_digit:
  assumes "digit h < 16"
  shows "hex_digit (hexit_char h) = Some (of_nat (digit h))"
proof -
  have all: "\<forall>n \<in> set [0..<16]. \<forall>u \<in> set [True, False].
          hex_digit (hexit_char (Hexit n u)) = Some (of_nat n)"
    by code_simp
  have n: "digit h \<in> set [0..<16]" using assms by simp
  have u: "upper h \<in> set [True, False]" by simp
  from all n u
  have "hex_digit (hexit_char (Hexit (digit h) (upper h))) = Some (of_nat (digit h))"
    by blast
  then show ?thesis by simp
qed

lemma hex4_hexits:
  "digit a < 16 \<Longrightarrow> digit b < 16 \<Longrightarrow> digit c < 16 \<Longrightarrow> digit d < 16 \<Longrightarrow>
     hex4 (hexit_char a) (hexit_char b) (hexit_char c) (hexit_char d)
       = Some (of_nat (4096 * digit a + 256 * digit b + 16 * digit c + digit d))"
  by (simp add: hex4_def hexit_digit)

lemma escape_char_letter: "escape_char (escape_letter e) = Some (escape_value e)"
  by (cases e) (simp_all add: escape_char_def)

lemma escape_letter_not_u: "escape_letter e \<noteq> 0x75"
  by (cases e) simp_all

lemma lex_string_items:
  "list_all item_ok its \<Longrightarrow>
     lex_string (concat (map item_text its) @ 0x22 # rest) = Some (map item_value its, rest)"
proof (induction its)
  case Nil
  show ?case by simp
next
  case (Cons i its)
  then have ih: "lex_string (concat (map item_text its) @ 0x22 # rest) = Some (map item_value its, rest)"
    and ok: "item_ok i"
    by simp_all
  show ?case
  proof (cases i)
    case (Plain c)
    with ok ih show ?thesis by (simp add: cons_unit_def)
  next
    case (Escaped e)
    with ih show ?thesis
      by (simp add: cons_unit_def escape_char_letter escape_letter_not_u)
  next
    case (Unicode a b c d)
    with ok ih show ?thesis
      by (simp add: cons_unit_def hex4_hexits del: of_nat_add of_nat_mult)
  qed
qed

lemma tokenize_element:
  assumes "element_ok e"
  shows "tokenize (element_text e @ rest) = cons_token (TString (element_value e)) (tokenize rest)"
proof -
  from assms have b: "blank (before e)" and i: "list_all item_ok (items e)" and a: "blank (after e)"
    by (simp_all add: element_ok_def)
  have "tokenize (element_text e @ rest)
        = tokenize (0x22 # concat (map item_text (items e)) @ 0x22 # after e @ rest)"
    using tokenize_blank [OF b] by (simp add: element_text_def)
  also have "\<dots> = cons_token (TString (element_value e)) (tokenize (after e @ rest))"
    using lex_string_items [OF i, of "after e @ rest"]
    by (simp add: is_json_ws_def element_value_def)
  also have "tokenize (after e @ rest) = tokenize rest"
    using a by (rule tokenize_blank)
  finally show ?thesis .
qed

lemma tokenize_comma: "tokenize (0x2C # rest) = cons_token TComma (tokenize rest)"
  by (simp add: is_json_ws_def)

lemma tokenize_elements:
  "list_all element_ok es \<Longrightarrow> tokenize rest = Some ts \<Longrightarrow>
     tokenize (elements_text es @ rest) = Some (element_tokens (map element_value es) @ ts)"
proof (induction es rule: elements_text.induct)
  case 1
  then show ?case by simp
next
  case (2 e)
  then show ?case by (simp add: tokenize_element cons_token_def)
next
  case (3 e e' es)
  then have "tokenize (elements_text (e' # es) @ rest)
             = Some (element_tokens (map element_value (e' # es)) @ ts)"
    by simp
  with 3 show ?case
    by (simp add: tokenize_element tokenize_comma cons_token_def is_json_ws_def
             del: elements_text.simps(2) element_tokens.simps(2))
qed

lemma tokenize_array_text:
  assumes "array_ok t"
  shows "tokenize (array_text_of t) = Some (TLBracket # element_tokens (array_value t) @ [TRBracket])"
proof -
  from assms have l: "blank (lead t)" and n: "blank (inner t)"
    and e: "list_all element_ok (elements t)" and r: "blank (trail t)"
    by (simp_all add: array_ok_def)
  have "tokenize (0x5D # trail t) = Some [TRBracket]"
    using tokenize_blank [OF r, of "[]"] by (simp add: is_json_ws_def cons_token_def)
  from tokenize_elements [OF e this]
  have "tokenize (elements_text (elements t) @ 0x5D # trail t)
        = Some (element_tokens (array_value t) @ [TRBracket])"
    by (simp add: array_value_def)
  moreover have "tokenize (array_text_of t)
        = cons_token TLBracket (tokenize (elements_text (elements t) @ 0x5D # trail t))"
    using tokenize_blank [OF l] tokenize_blank [OF n]
    by (simp add: array_text_of_def is_json_ws_def)
  ultimately show ?thesis by (simp add: cons_token_def)
qed

lemma run_more_elements:
  "run (AfterElem acc []) (concat (map (\<lambda>x. [TComma, TString x]) xs) @ [TRBracket])
     = Some (JArray (rev acc @ map JString xs))"
  by (induction xs arbitrary: acc) simp_all

lemma element_tokens_Cons:
  "element_tokens (x # xs) = TString x # concat (map (\<lambda>y. [TComma, TString y]) xs)"
  by (induction xs arbitrary: x) simp_all

lemma run_array_tokens:
  "run (Value []) (TLBracket # element_tokens xs @ [TRBracket]) = Some (JArray (map JString xs))"
proof (cases xs)
  case Nil
  then show ?thesis by simp
next
  case (Cons x xs')
  then show ?thesis
    using run_more_elements [of "[JString x]" xs']
    by (simp add: element_tokens_Cons del: element_tokens.simps)
qed

lemma JSON_parse_array_text:
  "array_ok t \<Longrightarrow> JSON_parse (array_text_of t) = Some (string_array (array_value t))"
  unfolding JSON_parse_def string_array_def
  by (simp only: tokenize_array_text run_array_tokens option.case)

text \<open>
  C6. A reply that is a well-formed JSON array of strings, whatever its white space and
  escapes, is returned as the strings it denotes, in their order, duplicates included;
  and whenever \<open>JSON.parse\<close> reads a reply as an array of strings, that array is
  returned as it is.
\<close>

theorem well_formed_array_returned_as_is:
  "(array_ok t \<longrightarrow> parse_reply (array_text_of t) = string_array (array_value t))
   \<and> (JSON_parse raw = Some (string_array xs) \<longrightarrow> parse_reply raw = string_array xs)"
  by (simp add: parse_reply_def JSON_parse_array_text)

theorem well_formed_array_returned_as_is_witness:
  "array_ok sample_array_text
   \<and> array_text_of sample_array_text =
       ascii ''['' @ [0x0A] @ ascii '' '' @ [0x22] @ ascii ''O'' @ [0x5C] @ ascii ''n'' @ [0x5C]
       @ ascii ''u004B'' @ [0x22] @ ascii '','' @ [0x0A] @ ascii '' '' @ [0x22] @ ascii ''a'' @ [0x22, 0x09]
       @ ascii '','' @ [0x22] @ ascii ''a'' @ [0x22, 0x0D, 0x0A] @ ascii '']''
   \<and> JSON_parse (array_text_of sample_array_text)
       = Some (string_array [[0x4F, 0x0A, 0x4B], ascii ''a'', ascii ''a''])
   \<and> parse_reply (array_text_of sample_array_text)
       = string_array [[0x4F, 0x0A, 0x4B], ascii ''a'', ascii ''a'']"
proof -
  have ok: "array_ok sample_array_text" by code_simp
  have tx: "array_text_of sample_array_text =
       ascii ''['' @ [0x0A] @ ascii '' '' @ [0x22] @ ascii ''O'' @ [0x5C] @ ascii ''n'' @ [0x5C]
       @ ascii ''u004B'' @ [0x22] @ ascii '','' @ [0x0A] @ ascii '' '' @ [0x22] @ ascii ''a'' @ [0x22, 0x09]
       @ ascii '','' @ [0x22] @ ascii ''a'' @ [0x22, 0x0D, 0x0A] @ ascii '']''"
    by code_simp
  have v: "array_value sample_array_text = [[0x4F, 0x0A, 0x4B], ascii ''a'', ascii ''a'']"
    by code_simp
  have j: "JSON_parse (array_text_of sample_array_text)
       = Some (string_array [[0x4F, 0x0A, 0x4B], ascii ''a'', ascii ''a''])"
    by code_simp
  from well_formed_array_returned_as_is
         [of sample_array_text "array_text_of sample_array_text"
             "[[0x4F, 0x0A, 0x4B], ascii ''a'', ascii ''a'']"] ok j
  have "parse_reply (array_text_of sample_array_text) = string_array (array_value sample_array_text)"
    by blast
  with ok tx j show ?thesis unfolding v by blast
qed

section \<open>Merging\<close>

lemma inj_JString: "inj JString"
  by (simp add: inj_def)

lemma updateFrontMatter_strings:
  assumes "existingAliases c = map JString E"
  shows "updateFrontMatter c (string_array D) = Inr (map JString (first_occurrences (E @ D)))"
proof -
  have "new_Set (map JString E @ map JString D) = map JString (new_Set (E @ D))"
    using new_Set_map_inj [OF inj_JString, of "E @ D"] by simp
  with assms show ?thesis
    by (simp add: updateFrontMatter_def string_array_def new_Set_first_occurrences)
qed

lemma existingAliases_array: "existingAliases (cache_with (Some (JArray xs))) = xs"
  by (simp add: existingAliases_def cache_with_def)

lemma existingAliases_string:
  "existingAliases (cache_with (Some (JString s))) = (if s = [] then [] else [JString s])"
  by (simp add: existingAliases_def cache_with_def)

lemma existingAliases_other:
  "\<not> is_array_value v \<Longrightarrow> \<not> is_string_value v \<Longrightarrow> existingAliases (cache_with v) = []"
  by (cases v rule: is_array_value.cases) (simp_all add: existingAliases_def cache_with_def)

text \<open>
  C3, as the code has it. For every existing alias collection other than the single
  empty string, merging it with the discovered aliases D gives the first occurrences
  of its normalization E followed by D: the elements are those of E and of D, none
  twice, compared as they are (no trimming, no case folding); the first occurrences of
  E come first, in their order, and E itself when it has no duplicates. A stored empty
  string counts as no alias: the merge is then the first occurrences of D.
\<close>

theorem merge_union_first_occurrence:
  "(e \<noteq> Single [] \<longrightarrow>
      updateFrontMatter (cache_with (stored e)) (string_array D)
        = Inr (map JString (first_occurrences (normalized e @ D)))
      \<and> set (first_occurrences (normalized e @ D)) = set (normalized e) \<union> set D
      \<and> distinct (first_occurrences (normalized e @ D))
      \<and> prefix (first_occurrences (normalized e)) (first_occurrences (normalized e @ D))
      \<and> (distinct (normalized e) \<longrightarrow>
            prefix (normalized e) (first_occurrences (normalized e @ D))))
   \<and> updateFrontMatter (cache_with (stored (Single []))) (string_array D)
        = Inr (map JString (first_occurrences D))"
proof (intro conjI impI)
  assume e: "e \<noteq> Single []"
  then have "existingAliases (cache_with (stored e)) = map JString (normalized e)"
    by (cases e) (simp_all add: existingAliases_def cache_with_def string_array_def)
  then show "updateFrontMatter (cache_with (stored e)) (string_array D)
        = Inr (map JString (first_occurrences (normalized e @ D)))"
    by (rule updateFrontMatter_strings)
  show "set (first_occurrences (normalized e @ D)) = set (normalized e) \<union> set D"
    using set_new_Set [of "normalized e @ D"] by (simp add: new_Set_first_occurrences)
  show "distinct (first_occurrences (normalized e @ D))"
    using distinct_new_Set [of "normalized e @ D"] by (simp add: new_Set_first_occurrences)
  show p: "prefix (first_occurrences (normalized e)) (first_occurrences (normalized e @ D))"
    using new_Set_prefix [of "normalized e" D] by (simp add: new_Set_first_occurrences)
  assume "distinct (normalized e)"
  then have "first_occurrences (normalized e) = normalized e"
    using new_Set_distinct_id [of "normalized e"] by (simp add: new_Set_first_occurrences)
  with p show "prefix (normalized e) (first_occurrences (normalized e @ D))" by simp
next
  have "existingAliases (cache_with (stored (Single []))) = map JString []"
    by (simp add: existingAliases_def cache_with_def)
  from updateFrontMatter_strings [OF this]
  show "updateFrontMatter (cache_with (stored (Single []))) (string_array D)
        = Inr (map JString (first_occurrences D))"
    by simp
qed

theorem merge_union_first_occurrence_witness:
  "Single (ascii ''Lesok'') \<noteq> Single []
   \<and> distinct (normalized (Single (ascii ''Lesok'')))
   \<and> updateFrontMatter (cache_with (stored (Single (ascii ''Lesok''))))
        (string_array [ascii ''Lesnoj'', ascii ''lesok'', ascii ''Lesnoj'', ascii '' lesok''])
      = Inr (map JString [ascii ''Lesok'', ascii ''Lesnoj'', ascii ''lesok'', ascii '' lesok''])
   \<and> prefix (normalized (Single (ascii ''Lesok'')))
        [ascii ''Lesok'', ascii ''Lesnoj'', ascii ''lesok'', ascii '' lesok'']
   \<and> updateFrontMatter (cache_with (stored (Sequence [ascii ''b'', ascii ''a'', ascii ''b''])))
        (string_array [ascii ''a'', ascii ''c''])
      = Inr (map JString [ascii ''b'', ascii ''a'', ascii ''c''])"
proof -
  have n: "Single (ascii ''Lesok'') \<noteq> Single []"
    by (simp add: ascii_def)
  have d: "distinct (normalized (Single (ascii ''Lesok'')))" by simp
  have f: "first_occurrences
             (normalized (Single (ascii ''Lesok''))
              @ [ascii ''Lesnoj'', ascii ''lesok'', ascii ''Lesnoj'', ascii '' lesok''])
           = [ascii ''Lesok'', ascii ''Lesnoj'', ascii ''lesok'', ascii '' lesok'']"
    by code_simp
  have g: "first_occurrences
             (normalized (Sequence [ascii ''b'', ascii ''a'', ascii ''b'']) @ [ascii ''a'', ascii ''c''])
           = [ascii ''b'', ascii ''a'', ascii ''c'']"
    by code_simp
  have m: "Sequence [ascii ''b'', ascii ''a'', ascii ''b''] \<noteq> Single []" by simp
  from merge_union_first_occurrence
         [of "Single (ascii ''Lesok'')"
             "[ascii ''Lesnoj'', ascii ''lesok'', ascii ''Lesnoj'', ascii '' lesok'']"]
       merge_union_first_occurrence
         [of "Sequence [ascii ''b'', ascii ''a'', ascii ''b'']" "[ascii ''a'', ascii ''c'']"]
       n d m
  show ?thesis unfolding f g by simp
qed

text \<open>
  C3 as stated fails for a stored empty string: its normalization in the data model is
  the one-element sequence holding it, but the merge with \<open>a\<close> is \<open>a\<close> alone, so the
  empty string is not in the result and the normalization is no prefix of it.
\<close>

theorem merge_drops_stored_empty_string:
  "normalized (Single []) = [[]]
   \<and> updateFrontMatter (cache_with (stored (Single []))) (string_array [ascii ''a''])
       = Inr [JString (ascii ''a'')]
   \<and> JString [] \<notin> set [JString (ascii ''a'')]
   \<and> \<not> prefix (map JString (normalized (Single []))) [JString (ascii ''a'')]"
  by code_simp

text \<open>
  C5. Merging the same discovered aliases again changes nothing: with the result of a
  merge stored as the existing aliases, merging D once more gives the same result.
\<close>

theorem merge_idempotent:
  "existingAliases c = map JString E \<longrightarrow>
     (\<exists>r. updateFrontMatter c (string_array D) = Inr r
        \<and> updateFrontMatter (cache_with (Some (JArray r))) (string_array D) = Inr r)"
proof
  assume c: "existingAliases c = map JString E"
  let ?r = "first_occurrences (E @ D)"
  have 1: "updateFrontMatter c (string_array D) = Inr (map JString ?r)"
    using c by (rule updateFrontMatter_strings)
  have "existingAliases (cache_with (Some (JArray (map JString ?r)))) = map JString ?r"
    by (rule existingAliases_array)
  then have "updateFrontMatter (cache_with (Some (JArray (map JString ?r)))) (string_array D)
             = Inr (map JString (first_occurrences (?r @ D)))"
    by (rule updateFrontMatter_strings)
  moreover have "first_occurrences (?r @ D) = ?r"
    using new_Set_idem_append [of E D] by (simp add: new_Set_first_occurrences)
  ultimately show "\<exists>r. updateFrontMatter c (string_array D) = Inr r
        \<and> updateFrontMatter (cache_with (Some (JArray r))) (string_array D) = Inr r"
    using 1 by simp
qed

theorem merge_idempotent_witness:
  "existingAliases (cache_with (Some (JString (ascii ''Lesok'')))) = map JString [ascii ''Lesok'']
   \<and> updateFrontMatter (cache_with (Some (JString (ascii ''Lesok''))))
        (string_array [ascii ''Lesnoj'', ascii ''Lesok''])
      = Inr (map JString [ascii ''Lesok'', ascii ''Lesnoj''])
   \<and> updateFrontMatter (cache_with (Some (JArray (map JString [ascii ''Lesok'', ascii ''Lesnoj'']))))
        (string_array [ascii ''Lesnoj'', ascii ''Lesok''])
      = Inr (map JString [ascii ''Lesok'', ascii ''Lesnoj''])"
proof -
  have h: "existingAliases (cache_with (Some (JString (ascii ''Lesok''))))
           = map JString [ascii ''Lesok'']"
    by (simp add: existingAliases_string ascii_def)
  have u: "updateFrontMatter (cache_with (Some (JString (ascii ''Lesok''))))
        (string_array [ascii ''Lesnoj'', ascii ''Lesok''])
      = Inr (map JString [ascii ''Lesok'', ascii ''Lesnoj''])"
    by code_simp
  from merge_idempotent
         [of "cache_with (Some (JString (ascii ''Lesok'')))" "[ascii ''Lesok'']"
             "[ascii ''Lesnoj'', ascii ''Lesok'']"] h
  obtain r where
    "updateFrontMatter (cache_with (Some (JString (ascii ''Lesok''))))
        (string_array [ascii ''Lesnoj'', ascii ''Lesok'']) = Inr r"
    and "updateFrontMatter (cache_with (Some (JArray r)))
        (string_array [ascii ''Lesnoj'', ascii ''Lesok'']) = Inr r"
    by blast
  with u h show ?thesis by simp
qed

text \<open>
  C9, as the code has it. With nothing discovered, the merge returns the existing
  aliases as \<open>updateFrontMatter\<close> normalizes them (absent or the empty string: none; a
  non-empty string: that string alone; a sequence: itself) with later duplicates
  removed; a normalized collection without duplicates, other than the empty string, is
  returned unchanged.
\<close>

theorem merge_nothing_discovered:
  "(existingAliases (cache_with (stored e)) =
      map JString (if e = Single [] then [] else normalized e))
   \<and> updateFrontMatter (cache_with (stored e)) (string_array []) =
      Inr (map JString (first_occurrences (if e = Single [] then [] else normalized e)))
   \<and> (distinct (normalized e) \<and> e \<noteq> Single [] \<longrightarrow>
        updateFrontMatter (cache_with (stored e)) (string_array []) = Inr (map JString (normalized e)))"
proof -
  let ?E = "if e = Single [] then [] else normalized e"
  have n: "existingAliases (cache_with (stored e)) = map JString ?E"
    by (cases e) (simp_all add: existingAliases_def cache_with_def string_array_def)
  have u: "updateFrontMatter (cache_with (stored e)) (string_array []) =
      Inr (map JString (first_occurrences ?E))"
    using updateFrontMatter_strings [OF n, of "[]"] by simp
  have "distinct (normalized e) \<Longrightarrow> e \<noteq> Single [] \<Longrightarrow> first_occurrences ?E = normalized e"
    using new_Set_distinct_id [of "normalized e"] by (simp add: new_Set_first_occurrences)
  with n u show ?thesis by auto
qed

theorem merge_nothing_discovered_witness:
  "distinct (normalized (Sequence [ascii ''a'', ascii ''b'']))
   \<and> Sequence [ascii ''a'', ascii ''b''] \<noteq> Single []
   \<and> updateFrontMatter (cache_with (stored (Sequence [ascii ''a'', ascii ''b''])))
        (string_array []) = Inr (map JString [ascii ''a'', ascii ''b''])"
proof -
  have d: "distinct (normalized (Sequence [ascii ''a'', ascii ''b'']))"
    by code_simp
  from merge_nothing_discovered [of "Sequence [ascii ''a'', ascii ''b'']"] d
  show ?thesis by auto
qed

text \<open>
  C9 as stated fails twice: a stored sequence with a duplicate comes back shorter, and
  a stored empty string comes back as no alias at all, not as a one-element sequence.
\<close>

theorem merge_nothing_discovered_counterexample:
  "updateFrontMatter (cache_with (stored (Sequence [ascii ''a'', ascii ''a''])))
        (string_array []) = Inr [JString (ascii ''a'')]
   \<and> updateFrontMatter (cache_with (stored (Sequence [ascii ''a'', ascii ''a''])))
        (string_array []) \<noteq> Inr (map JString (normalized (Sequence [ascii ''a'', ascii ''a''])))
   \<and> updateFrontMatter (cache_with (stored (Single []))) (string_array []) = Inr []
   \<and> updateFrontMatter (cache_with (stored (Single []))) (string_array [])
        \<noteq> Inr (map JString (normalized (Single [])))"
  by code_simp

text \<open>
  C10. An existing \<open>aliases\<close> value that is neither an array nor a string, or that is
  the empty string, counts as no alias: the value written holds the discovered aliases
  only, so the old value is overwritten; the same holds without a cache or without
  front matter. What is written is always an array, also when the existing value was a
  single string, which becomes its first element.
\<close>

theorem unexpected_existing_value_overwritten:
  "((\<not> is_array_value v \<and> \<not> is_string_value v) \<or> v = Some (JString []) \<longrightarrow>
      existingAliases (cache_with v) = []
      \<and> updateFrontMatter (cache_with v) (string_array D) = Inr (map JString (first_occurrences D)))
   \<and> (updateFrontMatter None (string_array D) = Inr (map JString (first_occurrences D)))
   \<and> (updateFrontMatter (Some \<lparr>frontmatter = None\<rparr>) (string_array D) = Inr (map JString (first_occurrences D)))
   \<and> (s \<noteq> [] \<longrightarrow>
        updateFrontMatter (cache_with (Some (JString s))) (string_array D) =
          Inr (map JString (first_occurrences (s # D))))"
proof (intro conjI impI)
  assume "(\<not> is_array_value v \<and> \<not> is_string_value v) \<or> v = Some (JString [])"
  then show e: "existingAliases (cache_with v) = []"
    using existingAliases_other [of v] existingAliases_string [of "[]"] by auto
  then have "existingAliases (cache_with v) = map JString []" by simp
  from updateFrontMatter_strings [OF this]
  show "updateFrontMatter (cache_with v) (string_array D) = Inr (map JString (first_occurrences D))"
    by simp
next
  have "existingAliases None = map JString []" by (simp add: existingAliases_def)
  from updateFrontMatter_strings [OF this]
  show "updateFrontMatter None (string_array D) = Inr (map JString (first_occurrences D))" by simp
next
  have "existingAliases (Some \<lparr>frontmatter = None\<rparr>) = map JString []" by (simp add: existingAliases_def)
  from updateFrontMatter_strings [OF this]
  show "updateFrontMatter (Some \<lparr>frontmatter = None\<rparr>) (string_array D) = Inr (map JString (first_occurrences D))" by simp
next
  assume "s \<noteq> []"
  then have "existingAliases (cache_with (Some (JString s))) = map JString [s]"
    by (simp add: existingAliases_string)
  from updateFrontMatter_strings [OF this]
  show "updateFrontMatter (cache_with (Some (JString s))) (string_array D) =
          Inr (map JString (first_occurrences (s # D)))" by simp
qed

theorem unexpected_existing_value_overwritten_witness:
  "\<not> is_array_value (Some (JNumber (ascii ''42''))) \<and> \<not> is_string_value (Some (JNumber (ascii ''42'')))
   \<and> ascii ''solo'' \<noteq> []
   \<and> updateFrontMatter (cache_with (Some (JNumber (ascii ''42'')))) (string_array [ascii ''a'', ascii ''b''])
       = Inr (map JString [ascii ''a'', ascii ''b''])
   \<and> updateFrontMatter (cache_with (Some (JString (ascii ''solo'')))) (string_array [ascii ''a'', ascii ''b''])
       = Inr (map JString [ascii ''solo'', ascii ''a'', ascii ''b''])"
proof -
  have n: "\<not> is_array_value (Some (JNumber (ascii ''42''))) \<and> \<not> is_string_value (Some (JNumber (ascii ''42'')))"
    by simp
  have s: "ascii ''solo'' \<noteq> []" by (simp add: ascii_def)
  have f: "first_occurrences [ascii ''a'', ascii ''b''] = [ascii ''a'', ascii ''b'']"
    by code_simp
  have g: "first_occurrences [ascii ''solo'', ascii ''a'', ascii ''b''] = [ascii ''solo'', ascii ''a'', ascii ''b'']"
    by code_simp
  from unexpected_existing_value_overwritten
         [of "Some (JNumber (ascii ''42''))" "[ascii ''a'', ascii ''b'']" "ascii ''solo''"] n s
  show ?thesis unfolding f g by simp
qed

section \<open>The excerpt\<close>

lemma prefix_append_short:
  "prefix xs (ys @ zs) \<Longrightarrow> length xs \<le> length ys \<Longrightarrow> prefix xs ys"
  by (auto simp: prefix_append)

lemma after_first_found:
  assumes "pat \<noteq> []" and "\<not> sublist pat (meta @ butlast pat)"
  shows "after_first pat (meta @ pat @ rest) = Some rest"
  using assms(2)
proof (induction meta)
  case Nil
  from assms(1) obtain p ps where "pat = p # ps" by (cases pat) auto
  then show ?case by simp
next
  case (Cons m ms)
  from Cons.prems have np: "\<not> prefix pat (m # ms @ butlast pat)"
    and ns: "\<not> sublist pat (ms @ butlast pat)"
    by (simp_all add: sublist_Cons_right)
  have split: "m # ms @ pat @ rest = (m # ms @ butlast pat) @ (last pat # rest)"
    using assms(1) by (simp add: append_butlast_last_id [symmetric] del: append_butlast_last_id)
  have len: "length pat \<le> length (m # ms @ butlast pat)"
    by simp
  have "\<not> prefix pat (m # ms @ pat @ rest)"
  proof
    assume "prefix pat (m # ms @ pat @ rest)"
    then have "prefix pat ((m # ms @ butlast pat) @ (last pat # rest))"
      by (simp only: split)
    then have "prefix pat (m # ms @ butlast pat)"
      using len by (rule prefix_append_short)
    with np show False by contradiction
  qed
  with Cons.IH [OF ns] show ?case by simp
qed

lemma strip_front_matter_block:
  assumes "\<not> sublist close_delimiter (meta @ butlast close_delimiter)"
  shows "strip_front_matter (open_delimiter @ meta @ close_delimiter @ rest) = rest"
proof -
  have "close_delimiter \<noteq> []" by (simp add: close_delimiter_def)
  from after_first_found [OF this assms]
  show ?thesis by (simp add: strip_front_matter_def)
qed

lemma excerpt_take: "0 \<le> m \<Longrightarrow> excerpt m body = take (nat m) (strip_front_matter body)"
  by (simp add: excerpt_def substring0_def Let_def)

lemma getAliases_sent:
  "\<exists>evs v. getAliases h t c =
      (Fetch \<lparr>bearer = openaiApiKey (plugin_settings h), note_title = t, note_content = Some c\<rparr> # evs, v)
      \<and> network_calls evs = [] \<and> writes evs = []"
  by (auto simp: getAliases_def getAliases_try_def network_calls_def writes_def Let_def
           split: response.splits option.splits sum.splits)

lemma getDeclensions_sent:
  "\<exists>evs v. getDeclensions h t =
      (Fetch \<lparr>bearer = openaiApiKey (plugin_settings h), note_title = t, note_content = None\<rparr> # evs, v)
      \<and> network_calls evs = [] \<and> writes evs = []"
  by (auto simp: getDeclensions_def getDeclensions_try_def network_calls_def writes_def Let_def
           split: response.splits option.splits sum.splits)

lemma network_calls_write_back: "network_calls (write_back h v) = []"
  by (auto simp: write_back_def network_calls_def split: sum.splits bool.splits)

lemma network_calls_append: "network_calls (xs @ ys) = network_calls xs @ network_calls ys"
  by (simp add: network_calls_def)

lemma writes_append: "writes (xs @ ys) = writes xs @ writes ys"
  by (simp add: writes_def)

lemma notices_append: "notices (xs @ ys) = notices xs @ notices ys"
  by (simp add: notices_def)

lemma after_first_none:
  assumes "pat \<noteq> []"
  shows "\<not> sublist pat t \<Longrightarrow> after_first pat t = None"
proof (induction t)
  case Nil
  with assms show ?case by simp
next
  case (Cons c cs)
  then show ?case by (simp add: sublist_Cons_right)
qed

lemma first_occurrence_exists:
  assumes "pat \<noteq> []"
  shows "sublist pat t \<Longrightarrow> \<exists>meta rest. t = meta @ pat @ rest \<and> \<not> sublist pat (meta @ butlast pat)"
proof (induction t)
  case Nil
  with assms show ?case by simp
next
  case (Cons c cs)
  show ?case
  proof (cases "prefix pat (c # cs)")
    case True
    then obtain rest where "c # cs = [] @ pat @ rest"
      by (auto simp: prefix_def)
    moreover have "\<not> sublist pat ([] @ butlast pat)"
    proof
      assume "sublist pat ([] @ butlast pat)"
      then have "length pat \<le> length (butlast pat)"
        using sublist_length_le by fastforce
      then have l: "length pat \<le> length pat - 1" by (simp only: length_butlast)
      from assms obtain a as where "pat = a # as" by (cases pat) auto
      with l show False by simp
    qed
    ultimately show ?thesis by blast
  next
    case False
    with Cons.prems have "sublist pat cs" by (simp add: sublist_Cons_right)
    from Cons.IH [OF this] obtain meta rest where
      cs: "cs = meta @ pat @ rest" and ns: "\<not> sublist pat (meta @ butlast pat)"
      by blast
    have "\<not> prefix pat (c # meta @ butlast pat)"
    proof
      assume "prefix pat (c # meta @ butlast pat)"
      then have "prefix pat ((c # meta @ butlast pat) @ (last pat # rest))"
        by (rule prefix_prefix)
      moreover have "(c # meta @ butlast pat) @ (last pat # rest) = c # cs"
      proof -
        have "butlast pat @ [last pat] = pat" using assms by simp
        then have "(butlast pat @ [last pat]) @ rest = pat @ rest" by (rule arg_cong)
        then have "butlast pat @ last pat # rest = pat @ rest" by simp
        with cs show ?thesis by simp
      qed
      ultimately show False using False by simp
    qed
    with ns have "\<not> sublist pat ((c # meta) @ butlast pat)"
      by (simp add: sublist_Cons_right)
    moreover from cs have "c # cs = (c # meta) @ pat @ rest" by simp
    ultimately show ?thesis by blast
  qed
qed

lemma strip_front_matter_no_opening:
  "\<not> prefix open_delimiter body \<Longrightarrow> strip_front_matter body = body"
  by (simp add: strip_front_matter_def)

lemma strip_front_matter_no_closing:
  assumes "\<not> sublist close_delimiter (drop (length open_delimiter) body)"
  shows "strip_front_matter body = body"
proof -
  have "close_delimiter \<noteq> []" by (simp add: close_delimiter_def)
  from after_first_none [OF this assms]
  show ?thesis by (simp add: strip_front_matter_def)
qed

text \<open>
  C4, as the code has it. With a cap that is not negative, the front matter is stripped
  first and the rest is truncated by prefix, so the excerpt is never longer than the
  cap. What is stripped is a leading block \<open>---\<close>, line feed, content, line feed,
  \<open>---\<close>, line feed, up to the first such closing line; a stripped block does not
  count toward the cap. A text that does not start with \<open>---\<close> and a line feed, or
  that has no closing line after it, is passed on whole; every text is of one of these
  three kinds. The excerpt is the note content of the one request \<open>addAliases\<close> sends.
\<close>

theorem excerpt_strips_then_truncates:
  "0 \<le> m \<longrightarrow>
     excerpt m body = take (nat m) (strip_front_matter body)
     \<and> int (length (excerpt m body)) \<le> m
     \<and> (\<not> prefix open_delimiter body \<longrightarrow>
          strip_front_matter body = body \<and> excerpt m body = take (nat m) body)
     \<and> (\<not> sublist close_delimiter (meta @ butlast close_delimiter) \<longrightarrow>
          strip_front_matter (open_delimiter @ meta @ close_delimiter @ rest) = rest
          \<and> excerpt m (open_delimiter @ meta @ close_delimiter @ rest) = take (nat m) rest)
     \<and> (\<not> sublist close_delimiter (drop (length open_delimiter) body) \<longrightarrow>
          strip_front_matter body = body \<and> excerpt m body = take (nat m) body)
     \<and> (prefix open_delimiter body \<and> sublist close_delimiter (drop (length open_delimiter) body) \<longrightarrow>
          (\<exists>meta' rest'. body = open_delimiter @ meta' @ close_delimiter @ rest'
              \<and> \<not> sublist close_delimiter (meta' @ butlast close_delimiter)))
     \<and> (activeFile h = Some f \<and> openaiApiKey (plugin_settings h) \<noteq> []
          \<and> maxContentLength (plugin_settings h) = m \<longrightarrow>
          map note_content (network_calls (addAliases h)) = [Some (excerpt m (vault_read h))])"
proof (intro impI conjI)
  assume m: "0 \<le> m"
  then show e: "excerpt m body = take (nat m) (strip_front_matter body)"
    by (rule excerpt_take)
  from m show "int (length (excerpt m body)) \<le> m"
    by (simp add: e)
  {
    assume "\<not> prefix open_delimiter body"
    then show s: "strip_front_matter body = body"
      by (rule strip_front_matter_no_opening)
    show "excerpt m body = take (nat m) body"
      by (simp add: e s)
  }
  {
    assume "\<not> sublist close_delimiter (meta @ butlast close_delimiter)"
    then show s: "strip_front_matter (open_delimiter @ meta @ close_delimiter @ rest) = rest"
      by (rule strip_front_matter_block)
    from m show "excerpt m (open_delimiter @ meta @ close_delimiter @ rest) = take (nat m) rest"
      by (simp add: excerpt_take s)
  }
  {
    assume "\<not> sublist close_delimiter (drop (length open_delimiter) body)"
    then show s: "strip_front_matter body = body"
      by (rule strip_front_matter_no_closing)
    show "excerpt m body = take (nat m) body"
      by (simp add: e s)
  }
  {
    assume a: "prefix open_delimiter body
               \<and> sublist close_delimiter (drop (length open_delimiter) body)"
    have "close_delimiter \<noteq> []" by (simp add: close_delimiter_def)
    from first_occurrence_exists [OF this] a obtain meta' rest' where
      d: "drop (length open_delimiter) body = meta' @ close_delimiter @ rest'"
      and n: "\<not> sublist close_delimiter (meta' @ butlast close_delimiter)"
      by blast
    from a obtain t where t: "body = open_delimiter @ t"
      by (auto simp: prefix_def)
    with d have "body = open_delimiter @ meta' @ close_delimiter @ rest'" by simp
    with n show "\<exists>meta' rest'. body = open_delimiter @ meta' @ close_delimiter @ rest'
              \<and> \<not> sublist close_delimiter (meta' @ butlast close_delimiter)"
      by blast
  }
  assume a: "activeFile h = Some f \<and> openaiApiKey (plugin_settings h) \<noteq> []
          \<and> maxContentLength (plugin_settings h) = m"
  obtain evs v where
    g: "getAliases h (basename f) (excerpt m (vault_read h)) =
      (Fetch \<lparr>bearer = openaiApiKey (plugin_settings h), note_title = basename f,
               note_content = Some (excerpt m (vault_read h))\<rparr> # evs, v)"
    and n: "network_calls evs = []"
    using getAliases_sent [of h "basename f" "excerpt m (vault_read h)"] by blast
  from a g have "addAliases h =
      (Fetch \<lparr>bearer = openaiApiKey (plugin_settings h), note_title = basename f,
               note_content = Some (excerpt m (vault_read h))\<rparr> # evs) @ write_back h v"
    by (simp add: addAliases_def)
  then have "network_calls (addAliases h) =
      [\<lparr>bearer = openaiApiKey (plugin_settings h), note_title = basename f,
               note_content = Some (excerpt m (vault_read h))\<rparr>]"
    using n network_calls_write_back [of h v]
    by (simp add: network_calls_append) (simp add: network_calls_def)
  then show "map note_content (network_calls (addAliases h)) = [Some (excerpt m (vault_read h))]"
    by simp
qed

theorem excerpt_strips_then_truncates_witness:
  "(0::int) \<le> 5
   \<and> \<not> sublist close_delimiter (ascii ''aliases: [x]'' @ butlast close_delimiter)
   \<and> prefix open_delimiter (vault_read (sample_host Rejected))
   \<and> sublist close_delimiter (drop (length open_delimiter) (vault_read (sample_host Rejected)))
   \<and> activeFile (sample_host Rejected) = Some \<lparr>basename = ascii ''Oka''\<rparr>
   \<and> openaiApiKey (plugin_settings (sample_host Rejected)) \<noteq> []
   \<and> maxContentLength (plugin_settings (sample_host Rejected)) = 5
   \<and> excerpt 5 (open_delimiter @ ascii ''aliases: [x]'' @ close_delimiter @ ascii ''A river.'')
       = take 5 (ascii ''A river.'')
   \<and> int (length (excerpt 5 (vault_read (sample_host Rejected)))) \<le> 5
   \<and> map note_content (network_calls (addAliases (sample_host Rejected)))
       = [Some (excerpt 5 (vault_read (sample_host Rejected)))]
   \<and> \<not> prefix open_delimiter (ascii ''A river, long.'')
   \<and> excerpt 5 (ascii ''A river, long.'') = ascii ''A riv''
   \<and> \<not> sublist close_delimiter (drop (length open_delimiter) (open_delimiter @ ascii ''A rule.''))
   \<and> excerpt 5 (open_delimiter @ ascii ''A rule.'') = take 5 (open_delimiter @ ascii ''A rule.'')"
proof -
  have m: "(0::int) \<le> 5" by simp
  have n: "\<not> sublist close_delimiter (ascii ''aliases: [x]'' @ butlast close_delimiter)"
    by code_simp
  have p: "prefix open_delimiter (vault_read (sample_host Rejected))"
    by code_simp
  have q: "sublist close_delimiter (drop (length open_delimiter) (vault_read (sample_host Rejected)))"
    by code_simp
  have a: "activeFile (sample_host Rejected) = Some \<lparr>basename = ascii ''Oka''\<rparr>
           \<and> openaiApiKey (plugin_settings (sample_host Rejected)) \<noteq> []
           \<and> maxContentLength (plugin_settings (sample_host Rejected)) = 5"
    by (simp add: sample_host_def ascii_def)
  have o: "\<not> prefix open_delimiter (ascii ''A river, long.'')"
    by code_simp
  have t: "take 5 (ascii ''A river, long.'') = ascii ''A riv''"
    by code_simp
  have c: "\<not> sublist close_delimiter (drop (length open_delimiter) (open_delimiter @ ascii ''A rule.''))"
    by code_simp
  from excerpt_strips_then_truncates
         [of 5 "vault_read (sample_host Rejected)" "ascii ''aliases: [x]''" "ascii ''A river.''"
             "sample_host Rejected" "\<lparr>basename = ascii ''Oka''\<rparr>"]
       excerpt_strips_then_truncates [of 5 "ascii ''A river, long.''"]
       excerpt_strips_then_truncates [of 5 "open_delimiter @ ascii ''A rule.''"]
       m n p q a o c
  show ?thesis unfolding t [symmetric] by simp
qed

text \<open>
  C4 as stated fails where the closing line follows the opening line at once: the block
  \<open>---\<close>, \<open>---\<close> before \<open>body\<close> is not stripped, and with a cap of eight the
  excerpt is that block and nothing of the body. Neither is a block stripped whose
  closing \<open>---\<close> ends the text without a line feed.
\<close>

theorem empty_block_not_stripped:
  "strip_front_matter (ascii ''---'' @ [line_feed] @ ascii ''---'' @ [line_feed] @ ascii ''body'')
     = ascii ''---'' @ [line_feed] @ ascii ''---'' @ [line_feed] @ ascii ''body''
   \<and> excerpt 8 (ascii ''---'' @ [line_feed] @ ascii ''---'' @ [line_feed] @ ascii ''body'')
     = ascii ''---'' @ [line_feed] @ ascii ''---'' @ [line_feed]
   \<and> excerpt 8 (ascii ''---'' @ [line_feed] @ ascii ''---'' @ [line_feed] @ ascii ''body'')
     \<noteq> take 8 (ascii ''body'')
   \<and> strip_front_matter (ascii ''---'' @ [line_feed] @ ascii ''a: b'' @ [line_feed] @ ascii ''---'')
     = ascii ''---'' @ [line_feed] @ ascii ''a: b'' @ [line_feed] @ ascii ''---''"
  by code_simp

section \<open>The invocation\<close>

lemma reply_content_throws: "reply_content data = Inl e \<Longrightarrow> e = TypeError"
  by (auto simp: reply_content_def and_then_def split: sum.splits
           elim: get_member.elims get_first.elims call_trim.elims)

lemma write_back_not_obtained:
  "has_elements (greater_than_zero h) v = Inr False \<Longrightarrow> write_back h v = [Notice AliasesNotObtained]"
  by (simp add: write_back_def)

text \<open>
  C7. Without an open file, or with an empty API key, \<open>addAliases\<close> shows one notice
  and stops: no request is sent and nothing is written. Both versions of the file agree.
\<close>

theorem preconditions_abort:
  "activeFile h = None \<or> openaiApiKey (plugin_settings h) = [] \<longrightarrow>
     addAliases h = [Notice (if activeFile h = None then NoOpenFile else EnterApiKey)]
     \<and> network_calls (addAliases h) = []
     \<and> writes (addAliases h) = []
     \<and> addAliases_title_only h = addAliases h"
  by (cases "activeFile h")
     (auto simp: addAliases_def addAliases_title_only_def network_calls_def writes_def)

theorem preconditions_abort_witness:
  "openaiApiKey (plugin_settings ((sample_host Rejected)\<lparr>plugin_settings :=
        \<lparr>openaiApiKey = [], maxContentLength = 5\<rparr>\<rparr>)) = []
   \<and> addAliases ((sample_host Rejected)\<lparr>plugin_settings :=
        \<lparr>openaiApiKey = [], maxContentLength = 5\<rparr>\<rparr>) = [Notice EnterApiKey]
   \<and> activeFile ((sample_host Rejected)\<lparr>activeFile := None\<rparr>) = None
   \<and> addAliases ((sample_host Rejected)\<lparr>activeFile := None\<rparr>) = [Notice NoOpenFile]"
proof -
  have k: "openaiApiKey (plugin_settings ((sample_host Rejected)\<lparr>plugin_settings :=
        \<lparr>openaiApiKey = [], maxContentLength = 5\<rparr>\<rparr>)) = []"
    by simp
  have f: "activeFile ((sample_host Rejected)\<lparr>plugin_settings :=
        \<lparr>openaiApiKey = [], maxContentLength = 5\<rparr>\<rparr>) \<noteq> None"
    by (simp add: sample_host_def)
  have n: "activeFile ((sample_host Rejected)\<lparr>activeFile := None\<rparr>) = None"
    by simp
  from preconditions_abort [of "(sample_host Rejected)\<lparr>plugin_settings :=
        \<lparr>openaiApiKey = [], maxContentLength = 5\<rparr>\<rparr>"]
       preconditions_abort [of "(sample_host Rejected)\<lparr>activeFile := None\<rparr>"] k f n
  show ?thesis by simp
qed

text \<open>
  The test of line 59: a returned value that fails it, as the empty array does, ends the
  invocation with the notice that no aliases were obtained, and nothing is written.
\<close>

lemma nothing_obtained_aborts:
  "has_elements (greater_than_zero h) (JArray []) = Inr False
   \<and> (has_elements (greater_than_zero h) v = Inr False \<longrightarrow>
        write_back h v = [Notice AliasesNotObtained])
   \<and> (activeFile h = Some f \<and> openaiApiKey (plugin_settings h) \<noteq> []
        \<and> getAliases h (basename f) (excerpt (maxContentLength (plugin_settings h)) (vault_read h)) = (evs, v)
        \<and> has_elements (greater_than_zero h) v = Inr False \<longrightarrow>
        addAliases h = evs @ [Notice AliasesNotObtained] \<and> writes (addAliases h) = [])
   \<and> (activeFile h = Some f \<and> openaiApiKey (plugin_settings h) \<noteq> []
        \<and> getDeclensions h (basename f) = (evs', v)
        \<and> has_elements (greater_than_zero h) v = Inr False \<longrightarrow>
        addAliases_title_only h = evs' @ [Notice AliasesNotObtained]
        \<and> writes (addAliases_title_only h) = [])"
proof (intro conjI impI)
  show "has_elements (greater_than_zero h) (JArray []) = Inr False" by simp
next
  assume "has_elements (greater_than_zero h) v = Inr False"
  then show "write_back h v = [Notice AliasesNotObtained]" by (rule write_back_not_obtained)
next
  assume a: "activeFile h = Some f \<and> openaiApiKey (plugin_settings h) \<noteq> []
        \<and> getAliases h (basename f) (excerpt (maxContentLength (plugin_settings h)) (vault_read h)) = (evs, v)
        \<and> has_elements (greater_than_zero h) v = Inr False"
  then show r: "addAliases h = evs @ [Notice AliasesNotObtained]"
    by (simp add: addAliases_def write_back_not_obtained)
  from a getAliases_sent [of h "basename f" "excerpt (maxContentLength (plugin_settings h)) (vault_read h)"]
  have "writes evs = []" by (auto simp: writes_def)
  then show "writes (addAliases h) = []"
    by (simp add: r writes_append) (simp add: writes_def)
next
  assume a: "activeFile h = Some f \<and> openaiApiKey (plugin_settings h) \<noteq> []
        \<and> getDeclensions h (basename f) = (evs', v)
        \<and> has_elements (greater_than_zero h) v = Inr False"
  then show r: "addAliases_title_only h = evs' @ [Notice AliasesNotObtained]"
    by (simp add: addAliases_title_only_def write_back_not_obtained)
  from a getDeclensions_sent [of h "basename f"]
  have "writes evs' = []" by (auto simp: writes_def)
  then show "writes (addAliases_title_only h) = []"
    by (simp add: r writes_append) (simp add: writes_def)
qed

text \<open>
  C2. The design stops the invocation, with the notice that no aliases were obtained and
  without a write, when nothing usable was discovered, the empty reply included. The
  code runs that test on the parsed array as it is: the empty reply is not valid JSON,
  the comma split gives one empty string, the array has length 1, and the invocation
  writes the empty alias after the existing one and reports the aliases as updated.
\<close>

theorem empty_reply_is_written:
  "parse_reply [] = JArray [JString []]
   \<and> addAliases (sample_host (Response True (reply_body []))) =
       [Fetch sample_request, Write [JString (ascii ''x''), JString []], Notice AliasesUpdated]
   \<and> writes (addAliases (sample_host (Response True (reply_body [])))) \<noteq> []
   \<and> AliasesNotObtained \<notin> set (notices (addAliases (sample_host (Response True (reply_body [])))))
   \<and> addAliases_title_only (sample_host (Response True (reply_body []))) =
       [Fetch (sample_request\<lparr>note_content := None\<rparr>),
        Write [JString (ascii ''x''), JString []], Notice AliasesUpdated]"
  by code_simp


lemma get_member_undefined: "get_member None k = Inl TypeError"
  by simp


lemma member_of_JNull: "member_of JNull k = None"
  by simp

lemma first_of_JNull: "first_of JNull = None"
  by simp






end
